theory Spec2Isabelle
  imports Main "HOL-Library.Word"
begin

unbundle bit_operations_syntax

section \<open>The state machine of \<^verbatim>\<open>libsl-machine/state_machine.c\<close>\<close>

text \<open>
  The library keeps one \<^verbatim>\<open>fsm_t\<close> per machine: an array of \<^verbatim>\<open>state_nr\<close> states, a
  pointer \<^verbatim>\<open>actual_state\<close> into that array and the identity \<^verbatim>\<open>target_state\<close> of the state
  requested for the next tick. Every state owns a 32-bit mask \<^verbatim>\<open>valid_target\<close> of the
  identities it may move to, and a private block with the \<^verbatim>\<open>enabled\<close> flag and the two
  callbacks.

  Conventions of the embedding.
  \<^item> \<^verbatim>\<open>uint32_t\<close> is \<open>32 word\<close>.
  \<^item> A pointer to a machine is an \<open>option\<close>: \<open>None\<close> is \<^verbatim>\<open>NULL\<close>. Each operation takes the
    pointer and gives back the machine the pointer refers to after the call.
  \<^item> A function pointer is an \<open>option\<close> over an opaque type of callbacks: \<open>None\<close> is
    \<^verbatim>\<open>NULL\<close>. Memory that \<^verbatim>\<open>malloc\<close> returned and nobody wrote is \<open>Indeterminate\<close>.
  \<^item> \<^verbatim>\<open>actual_state\<close> points into \<^verbatim>\<open>states\<close>; it is kept as the element offset it was
    computed from (\<^verbatim>\<open>&fsm->states[i]\<close> is offset \<open>i\<close>).
  \<^item> An access to memory that C leaves undefined is a \<open>fault\<close>: dereferencing \<^verbatim>\<open>NULL\<close>,
    reading outside the array, reading an indeterminate function pointer. No value can
    be given to such a read.
  \<^item> A shift that C leaves undefined has the value the processor computes: see \<open>shl_one\<close>.
  \<^item> Calling a callback is recorded as the value of type \<open>call\<close> that \<open>state_machine_run\<close>
    returns; the callbacks are taken not to reach the machine they are called from (the
    library hands them only \<^verbatim>\<open>arg\<close>).
  \<^item> \<^verbatim>\<open>malloc\<close> is taken to succeed.
\<close>

type_synonym u32 = "32 word"

datatype fault = NullDeref | OutOfBounds | UninitRead

datatype 'a slot = Indeterminate | Val 'a

text \<open>\<^verbatim>\<open>struct _state_private_t\<close>.\<close>

record ('r, 'e) state_private_t =
  enabled :: bool
  run :: "'r option slot"
  enter :: "'e option slot"

text \<open>
  \<^verbatim>\<open>struct _fsm_state_t\<close>. The field \<^verbatim>\<open>id\<close> is \<open>st_id\<close> here (\<open>id\<close> is the identity function
  of HOL). \<^verbatim>\<open>private_data\<close> points to a block allocated for this state alone and is never
  redirected, so the block is kept in the state.
\<close>

record ('r, 'e) fsm_state_t =
  st_id :: u32
  valid_target :: u32
  private_data :: "('r, 'e) state_private_t"

text \<open>
  \<^verbatim>\<open>struct _fsm_t\<close>. The fields \<^verbatim>\<open>sm_run\<close>, \<^verbatim>\<open>get_state\<close>, \<^verbatim>\<open>add_state\<close>, \<^verbatim>\<open>add_transition\<close> and
  \<^verbatim>\<open>go_to_state\<close> are set once by \<^verbatim>\<open>state_machine_init\<close> to the five static functions below and
  are called through directly.
\<close>

record ('r, 'e) fsm_t =
  actual_state :: u32
  target_state :: u32
  states :: "('r, 'e) fsm_state_t list"
  state_nr :: u32

text \<open>A callback invocation: \<^verbatim>\<open>run(arg)\<close> or \<^verbatim>\<open>enter(exit_state_id, arg)\<close>.\<close>

datatype ('r, 'e, 'a) call = Run_call 'r 'a | Enter_call 'e u32 'a

text \<open>Conversion of an \<^verbatim>\<open>int\<close> to \<^verbatim>\<open>bool\<close> (\<^verbatim>\<open>_Bool\<close>): every value but 0 becomes \<^verbatim>\<open>true\<close>.\<close>

definition c_bool :: "int \<Rightarrow> bool" where
  "c_bool v = (v \<noteq> 0)"

text \<open>Conversion of an \<^verbatim>\<open>int\<close> to \<^verbatim>\<open>uint32_t\<close>: reduction modulo \<open>2 ^ 32\<close>.\<close>

definition c_u32 :: "int \<Rightarrow> u32" where
  "c_u32 v = word_of_int v"

text \<open>
  \<^verbatim>\<open>0x1 << n\<close>, converted to \<^verbatim>\<open>uint32_t\<close> by the operator it is an operand of. The left
  operand is an \<^verbatim>\<open>int\<close> of 32 bits, so C gives the shift a value for \<open>n\<close> below 31 only. The
  operations evaluate it for every identity below \<^verbatim>\<open>state_nr\<close>, with no other bound on
  \<open>n\<close>. Beyond 30 the model takes the value the compiled code computes on x86-64 and
  AArch64: the processor reduces the shift count modulo 32, so the result is the sign
  bit for 31, bit 0 again for 32, bit 1 for 33.
\<close>

definition shl_one :: "u32 \<Rightarrow> u32" where
  "shl_one n = push_bit (unat n mod 32) 1"

text \<open>\<^verbatim>\<open>fsm->states[i]\<close>: a read outside the allocated array is a fault.\<close>

definition state_at :: "('r, 'e) fsm_state_t list \<Rightarrow> u32 \<Rightarrow> fault + ('r, 'e) fsm_state_t" where
  "state_at xs i = (if unat i < length xs then Inr (xs ! unat i) else Inl OutOfBounds)"

text \<open>\<^verbatim>\<open>*fsm->actual_state\<close>.\<close>

definition actual :: "('r, 'e) fsm_t \<Rightarrow> fault + ('r, 'e) fsm_state_t" where
  "actual m = state_at (states m) (actual_state m)"

subsection \<open>\<^verbatim>\<open>state_machine_init\<close>\<close>

text \<open>What one round of the loop writes to \<^verbatim>\<open>fsm->states[cntr]\<close>.\<close>

definition fresh_state :: "u32 \<Rightarrow> ('r, 'e) fsm_state_t" where
  "fresh_state cntr =
     \<lparr>st_id = cntr, valid_target = 0,
      private_data = \<lparr>enabled = False, run = Indeterminate, enter = Indeterminate\<rparr>\<rparr>"

text \<open>
  The loop \<^verbatim>\<open>for (cntr = 0; cntr < state_nr; cntr++)\<close>. The array is filled from index 0
  upwards, so the part written so far is the list \<open>xs\<close>.
\<close>

function init_states :: "u32 \<Rightarrow> u32 \<Rightarrow> ('r, 'e) fsm_state_t list \<Rightarrow> ('r, 'e) fsm_state_t list" where
  "init_states cntr n xs =
     (if cntr < n then init_states (cntr + 1) n (xs @ [fresh_state cntr]) else xs)"
  by pat_completeness auto
termination
proof (relation "measure (\<lambda>(cntr, n, xs). unat n - unat cntr)")
  show "wf (measure (\<lambda>(cntr :: u32, n :: u32, xs :: ('r, 'e) fsm_state_t list). unat n - unat cntr))"
    by simp
next
  fix cntr n :: u32 and xs :: "('r, 'e) fsm_state_t list"
  assume "cntr < n"
  then have "unat n - unat (cntr + 1) < unat n - unat cntr"
    by unat_arith
  then show "((cntr + 1, n, xs @ [fresh_state cntr]), (cntr, n, xs))
      \<in> measure (\<lambda>(cntr, n, xs). unat n - unat cntr)"
    by simp
qed

declare init_states.simps [simp del]

text \<open>
  \<^verbatim>\<open>state_machine_init(state_nr, initial_state, arg)\<close>; the function never reads \<^verbatim>\<open>arg\<close>.
  \<^verbatim>\<open>initial_state\<close> is stored as it comes.
\<close>

definition state_machine_init :: "u32 \<Rightarrow> u32 \<Rightarrow> ('r, 'e) fsm_t" where
  "state_machine_init n initial_state =
     \<lparr>actual_state = initial_state, target_state = initial_state,
      states = init_states 0 n [], state_nr = n\<rparr>"

subsection \<open>The five operations\<close>

definition state_machine_get_state :: "('r, 'e) fsm_t option \<Rightarrow> fault + u32" where
  "state_machine_get_state fsm =
     (case fsm of
        None \<Rightarrow> Inl NullDeref
      | Some m \<Rightarrow> (case actual m of Inl f \<Rightarrow> Inl f | Inr s \<Rightarrow> Inr (st_id s)))"

definition state_machine_add_state ::
  "('r, 'e) fsm_t option \<Rightarrow> u32 \<Rightarrow> 'r option \<Rightarrow> 'e option
     \<Rightarrow> fault + (bool \<times> ('r, 'e) fsm_t option)" where
  "state_machine_add_state fsm i r e =
     (case fsm of
        None \<Rightarrow> Inr (c_bool (- 1), None)
      | Some m \<Rightarrow>
          if i \<ge> state_nr m then Inr (False, Some m)
          else (case state_at (states m) i of
                  Inl f \<Rightarrow> Inl f
                | Inr s \<Rightarrow>
                    if enabled (private_data s) = False
                    then Inr (True, Some (m\<lparr>states := (states m)[unat i :=
                           s\<lparr>private_data := \<lparr>enabled = True, run = Val r, enter = Val e\<rparr>\<rparr>]\<rparr>))
                    else Inr (False, Some m)))"

definition state_machine_add_transition ::
  "('r, 'e) fsm_t option \<Rightarrow> u32 \<Rightarrow> u32 \<Rightarrow> fault + (bool \<times> ('r, 'e) fsm_t option)" where
  "state_machine_add_transition fsm state_id target_id =
     (case fsm of
        None \<Rightarrow> Inl NullDeref
      | Some m \<Rightarrow>
          if state_id \<ge> state_nr m \<or> target_id \<ge> state_nr m then Inr (False, Some m)
          else (case state_at (states m) state_id of
                  Inl f \<Rightarrow> Inl f
                | Inr s \<Rightarrow>
                    Inr (True, Some (m\<lparr>states := (states m)[unat state_id :=
                           s\<lparr>valid_target := valid_target s OR shl_one target_id\<rparr>]\<rparr>))))"

definition state_machine_go_to_state ::
  "('r, 'e) fsm_t option \<Rightarrow> u32 \<Rightarrow> fault + (bool \<times> ('r, 'e) fsm_t option)" where
  "state_machine_go_to_state fsm target_id =
     (case fsm of
        None \<Rightarrow> Inr (c_bool (- 1), None)
      | Some m \<Rightarrow>
          if target_id \<ge> state_nr m then Inr (False, Some m)
          else (case actual m of
                  Inl f \<Rightarrow> Inl f
                | Inr s \<Rightarrow>
                    if valid_target s AND shl_one target_id \<noteq> 0
                    then Inr (True, Some (m\<lparr>target_state := target_id\<rparr>))
                    else Inr (False, Some m)))"

text \<open>
  \<open>state_machine_run\<close> returns the value of the C function, the machine after the call and
  the callback it called, if any.
\<close>

definition state_machine_run ::
  "('r, 'e) fsm_t option \<Rightarrow> 'a
     \<Rightarrow> fault + (u32 \<times> ('r, 'e) fsm_t option \<times> ('r, 'e, 'a) call option)" where
  "state_machine_run fsm arg =
     (case fsm of
        None \<Rightarrow> Inr (c_u32 (- 1), None, None)
      | Some m \<Rightarrow>
          (case actual m of
             Inl f \<Rightarrow> Inl f
           | Inr cur \<Rightarrow>
               if st_id cur = target_state m
               then (case run (private_data cur) of
                       Indeterminate \<Rightarrow> Inl UninitRead
                     | Val cb \<Rightarrow> Inr (st_id cur, Some m, map_option (\<lambda>f. Run_call f arg) cb))
               else (case state_machine_get_state (Some m) of
                       Inl f \<Rightarrow> Inl f
                     | Inr i \<Rightarrow>
                         (let m' = m\<lparr>actual_state := target_state m\<rparr> in
                          case actual m' of
                            Inl f \<Rightarrow> Inl f
                          | Inr new \<Rightarrow>
                              (case enter (private_data new) of
                                 Indeterminate \<Rightarrow> Inl UninitRead
                               | Val cb \<Rightarrow>
                                   Inr (st_id new, Some m',
                                        map_option (\<lambda>g. Enter_call g i arg) cb))))))"

section \<open>Well-formed machines\<close>

text \<open>
  The mask \<^verbatim>\<open>valid_target\<close> read as the set of allowed targets: \<open>t\<close> is in the set of \<open>s\<close>
  when bit \<open>t\<close> of the mask is set. A mask of 32 bits has no bit for an identity of 32 or
  more, so no such identity is in the set.
\<close>

definition is_allowed_target :: "('r, 'e) fsm_state_t \<Rightarrow> u32 \<Rightarrow> bool" where
  "is_allowed_target s t = bit (valid_target s) (unat t)"

text \<open>
  The array as \<open>state_machine_init\<close> allocates it and every operation keeps it:
  \<^verbatim>\<open>state_nr\<close> states, the state at offset \<open>k\<close> carrying the identity \<open>k\<close>.
\<close>

definition states_ok :: "('r, 'e) fsm_t \<Rightarrow> bool" where
  "states_ok m \<longleftrightarrow>
     length (states m) = unat (state_nr m)
     \<and> map st_id (states m) = map of_nat [0..<length (states m)]"

text \<open>
  The range invariant of the data model: the current state and the target lie below
  \<^verbatim>\<open>state_nr\<close>. With \<open>states_ok\<close> the identity of the current state is the offset
  \<open>actual_state\<close> itself.
\<close>

definition in_range :: "('r, 'e) fsm_t \<Rightarrow> bool" where
  "in_range m \<longleftrightarrow> actual_state m < state_nr m \<and> target_state m < state_nr m"

definition fsm_inv :: "('r, 'e) fsm_t \<Rightarrow> bool" where
  "fsm_inv m \<longleftrightarrow> states_ok m \<and> in_range m"

subsection \<open>Calling twice\<close>

text \<open>
  Two calls of \<open>state_machine_add_transition\<close> with the same arguments, one after the
  other: the result is the second call's, on the machine the first call left.
\<close>

definition add_transition_twice ::
  "('r, 'e) fsm_t option \<Rightarrow> u32 \<Rightarrow> u32 \<Rightarrow> fault + (bool \<times> ('r, 'e) fsm_t option)" where
  "add_transition_twice fsm s t =
     (case state_machine_add_transition fsm s t of
        Inl f \<Rightarrow> Inl f
      | Inr (ok, fsm') \<Rightarrow> state_machine_add_transition fsm' s t)"

subsection \<open>An example machine\<close>

text \<open>
  The machine of the scenario of the specification, after its setup: three states,
  all registered (state 2 with no \<^verbatim>\<open>enter\<close> callback), the edges \<open>0 \<rightarrow> 1\<close> and \<open>1 \<rightarrow> 2\<close>,
  initial state 0. Callbacks are named by strings.
\<close>

definition scenario :: "(string, string) fsm_t" where
  "scenario =
     \<lparr>actual_state = 0, target_state = 0,
      states =
        [\<lparr>st_id = 0, valid_target = 2,
          private_data = \<lparr>enabled = True, run = Val (Some ''stay0''), enter = Val (Some ''enter0'')\<rparr>\<rparr>,
         \<lparr>st_id = 1, valid_target = 4,
          private_data = \<lparr>enabled = True, run = Val (Some ''stay1''), enter = Val (Some ''enter1'')\<rparr>\<rparr>,
         \<lparr>st_id = 2, valid_target = 0,
          private_data = \<lparr>enabled = True, run = Val (Some ''stay2''), enter = Val None\<rparr>\<rparr>],
      state_nr = 3\<rparr>"

text \<open>The same machine with the edges \<open>0 \<rightarrow> 0\<close> and \<open>0 \<rightarrow> 2\<close> added.\<close>

definition scenario_loop :: "(string, string) fsm_t" where
  "scenario_loop =
     scenario\<lparr>states := (states scenario)[0 := (states scenario ! 0)\<lparr>valid_target := 7\<rparr>]\<rparr>"

text \<open>
  A machine of 33 states, one more than the mask has bits, in state 0, with bit 0 set
  in the mask of state 0 and no other bit set in any mask; no state is registered.
\<close>

definition wide_machine :: "(string, string) fsm_t" where
  "wide_machine =
     (state_machine_init 33 0)\<lparr>states :=
        (states (state_machine_init 33 0))[0 := (fresh_state 0)\<lparr>valid_target := 1\<rparr>]\<rparr>"

text \<open>
  A machine of one state with bit 0 set in its mask; the state is not registered.
\<close>

definition bare_loop :: "('r, 'e) fsm_t" where
  "bare_loop =
     (state_machine_init 1 0)\<lparr>states := [(fresh_state 0)\<lparr>valid_target := 1\<rparr>]\<rparr>"

subsection \<open>Sequences of calls\<close>

text \<open>
  A caller drives a machine by a sequence of calls of the four operations, each on the
  machine the one before left. \<open>perform\<close> keeps the machine of a call and drops the value
  it returned; a fault ends the sequence.
\<close>

datatype ('r, 'e, 'a) request =
    Add_state u32 "'r option" "'e option"
  | Add_transition u32 u32
  | Go_to_state u32
  | Run 'a

fun perform :: "('r, 'e) fsm_t \<Rightarrow> ('r, 'e, 'a) request \<Rightarrow> fault + ('r, 'e) fsm_t option" where
  "perform m (Add_state i r e) = map_sum id snd (state_machine_add_state (Some m) i r e)"
| "perform m (Add_transition s t) = map_sum id snd (state_machine_add_transition (Some m) s t)"
| "perform m (Go_to_state t) = map_sum id snd (state_machine_go_to_state (Some m) t)"
| "perform m (Run arg) = map_sum id (fst \<circ> snd) (state_machine_run (Some m) arg)"

fun perform_all :: "('r, 'e) fsm_t \<Rightarrow> ('r, 'e, 'a) request list \<Rightarrow> fault + ('r, 'e) fsm_t option" where
  "perform_all m [] = Inr (Some m)"
| "perform_all m (q # qs) =
     (case perform m q of
        Inl f \<Rightarrow> Inl f
      | Inr None \<Rightarrow> Inr None
      | Inr (Some m') \<Rightarrow> perform_all m' qs)"

section \<open>Basic facts\<close>

lemma init_states_eq:
  "cntr \<le> n \<Longrightarrow>
     init_states cntr n xs = xs @ map (\<lambda>k. fresh_state (of_nat k)) [unat cntr..<unat n]"
proof (induction cntr n xs rule: init_states.induct)
  case (1 cntr n xs)
  show ?case
  proof (cases "cntr < n")
    case True
    then have le: "cntr + 1 \<le> n"
      by (rule inc_le)
    have suc: "unat (cntr + 1) = Suc (unat cntr)"
      using True by unat_arith
    have lt: "unat cntr < unat n"
      using True by (simp add: word_less_nat_alt)
    have "init_states cntr n xs = init_states (cntr + 1) n (xs @ [fresh_state cntr])"
      using True by (subst init_states.simps) simp
    also have "\<dots> = (xs @ [fresh_state cntr]) @ map (\<lambda>k. fresh_state (of_nat k)) [Suc (unat cntr)..<unat n]"
      using "1.IH" [OF True le] suc by simp
    also have "\<dots> = xs @ map (\<lambda>k. fresh_state (of_nat k)) [unat cntr..<unat n]"
      using lt by (simp add: upt_conv_Cons)
    finally show ?thesis .
  next
    case False
    with "1.prems" have "cntr = n" by simp
    then show ?thesis by (subst init_states.simps) simp
  qed
qed

lemma states_init:
  "states (state_machine_init n i) = map (\<lambda>k. fresh_state (of_nat k)) [0..<unat n]"
  by (simp add: state_machine_init_def init_states_eq)

lemma states_ok_init: "states_ok (state_machine_init n i)"
  by (simp add: states_ok_def states_init fresh_state_def comp_def) (simp add: state_machine_init_def)

lemma fsm_inv_init: "i < n \<Longrightarrow> fsm_inv (state_machine_init n i)"
  by (simp add: fsm_inv_def states_ok_init in_range_def) (simp add: state_machine_init_def)

lemma state_at_ok:
  "states_ok m \<Longrightarrow> i < state_nr m \<Longrightarrow> state_at (states m) i = Inr (states m ! unat i)"
  by (simp add: states_ok_def state_at_def word_less_nat_alt)

lemma st_id_ok:
  "states_ok m \<Longrightarrow> i < state_nr m \<Longrightarrow> st_id (states m ! unat i) = i"
proof -
  assume ok: "states_ok m" and lt: "i < state_nr m"
  then have len: "unat i < length (states m)"
    by (simp add: states_ok_def word_less_nat_alt)
  have "st_id (states m ! unat i) = map st_id (states m) ! unat i"
    using len by simp
  also have "\<dots> = map of_nat [0..<length (states m)] ! unat i"
    using ok by (simp add: states_ok_def)
  also have "\<dots> = i"
    using len by simp
  finally show ?thesis .
qed

lemma actual_ok:
  "fsm_inv m \<Longrightarrow> actual m = Inr (states m ! unat (actual_state m))"
  by (simp add: actual_def fsm_inv_def in_range_def state_at_ok)

lemma shl_one_ok: "t < 32 \<Longrightarrow> shl_one t = push_bit (unat t) 1"
  by (simp add: shl_one_def word_less_nat_alt)

lemma mask_test_below_32: "t < 32 \<Longrightarrow> (w AND shl_one t \<noteq> 0) = bit w (unat t)"
  by (simp add: shl_one_ok and_exp_eq_0_iff_not_bit)

lemma not_allowed_wide: "32 \<le> t \<Longrightarrow> \<not> is_allowed_target s t"
  by (auto simp: is_allowed_target_def word_le_nat_alt dest: bit_imp_le_length)

lemma allowed_lt_32: "is_allowed_target s t \<Longrightarrow> t < 32"
  by (rule ccontr) (simp add: not_less not_allowed_wide)

lemma allowed_after_or:
  "t < 32 \<Longrightarrow> is_allowed_target (s\<lparr>valid_target := valid_target s OR shl_one t\<rparr>) t"
  by (simp add: shl_one_ok is_allowed_target_def bit_or_iff bit_exp_iff word_less_nat_alt)

lemma index_in_array:
  assumes "states_ok m" and "i < state_nr m"
  shows "unat i < length (states m)"
  using assms by (simp add: states_ok_def word_less_nat_alt)

lemma get_state_ok:
  "fsm_inv m \<Longrightarrow> state_machine_get_state (Some m) = Inr (actual_state m)"
  by (simp add: state_machine_get_state_def actual_ok) (simp add: fsm_inv_def in_range_def st_id_ok)

lemma add_state_eq:
  assumes "states_ok m"
  shows "state_machine_add_state (Some m) i r e =
     (if i < state_nr m \<and> \<not> enabled (private_data (states m ! unat i))
      then Inr (True, Some (m\<lparr>states := (states m)[unat i :=
             (states m ! unat i)\<lparr>private_data := \<lparr>enabled = True, run = Val r, enter = Val e\<rparr>\<rparr>]\<rparr>))
      else Inr (False, Some m))"
proof (cases "i < state_nr m")
  case True
  then show ?thesis
    using assms by (simp add: state_machine_add_state_def state_at_ok not_le [symmetric])
next
  case False
  then show ?thesis
    by (simp add: state_machine_add_state_def not_less)
qed

lemma add_transition_eq:
  assumes "states_ok m"
  shows "state_machine_add_transition (Some m) s t =
     (if s < state_nr m \<and> t < state_nr m
      then Inr (True, Some (m\<lparr>states := (states m)[unat s :=
             (states m ! unat s)\<lparr>valid_target :=
                valid_target (states m ! unat s) OR shl_one t\<rparr>]\<rparr>))
      else Inr (False, Some m))"
proof (cases "s < state_nr m \<and> t < state_nr m")
  case True
  with assms show ?thesis
    by (simp add: state_machine_add_transition_def state_at_ok not_le [symmetric])
next
  case False
  then show ?thesis
    by (auto simp: state_machine_add_transition_def)
qed

lemma go_to_state_eq:
  assumes "fsm_inv m"
  shows "state_machine_go_to_state (Some m) t =
     (if t < state_nr m \<and> valid_target (states m ! unat (actual_state m)) AND shl_one t \<noteq> 0
      then Inr (True, Some (m\<lparr>target_state := t\<rparr>))
      else Inr (False, Some m))"
proof (cases "t < state_nr m")
  case True
  with assms show ?thesis
    by (simp add: state_machine_go_to_state_def actual_ok not_le [symmetric])
next
  case False
  then show ?thesis
    by (simp add: state_machine_go_to_state_def not_less)
qed

lemma go_to_state_below_32:
  assumes "fsm_inv m" and "t < 32 \<or> state_nr m \<le> t"
  shows "state_machine_go_to_state (Some m) t =
     (if t < state_nr m \<and> is_allowed_target (states m ! unat (actual_state m)) t
      then Inr (True, Some (m\<lparr>target_state := t\<rparr>))
      else Inr (False, Some m))"
proof (cases "t < state_nr m")
  case True
  with assms(2) have "t < 32" by auto
  then show ?thesis
    by (simp add: go_to_state_eq [OF assms(1)] mask_test_below_32 is_allowed_target_def)
next
  case False
  then show ?thesis
    by (simp add: go_to_state_eq [OF assms(1)])
qed

lemma fsm_inv_actual_update:
  "fsm_inv m \<Longrightarrow> fsm_inv (m\<lparr>actual_state := target_state m\<rparr>)"
  by (simp add: fsm_inv_def states_ok_def in_range_def)

lemma fsm_inv_target_update:
  "fsm_inv m \<Longrightarrow> t < state_nr m \<Longrightarrow> fsm_inv (m\<lparr>target_state := t\<rparr>)"
  by (simp add: fsm_inv_def states_ok_def in_range_def)

lemma states_ok_states_update:
  assumes "states_ok m" and "st_id s' = st_id (states m ! k)"
  shows "states_ok (m\<lparr>states := (states m)[k := s']\<rparr>)"
proof -
  have "map st_id ((states m)[k := s']) = (map st_id (states m))[k := st_id s']"
    by (simp add: map_update)
  also have "\<dots> = map st_id (states m)"
    using assms(2) by (metis list_update_id map_update)
  finally show ?thesis
    using assms(1) by (simp add: states_ok_def)
qed

lemma fsm_inv_states_update:
  "fsm_inv m \<Longrightarrow> st_id s' = st_id (states m ! k) \<Longrightarrow>
     fsm_inv (m\<lparr>states := (states m)[k := s']\<rparr>)"
  using states_ok_states_update [of m s' k] by (simp add: fsm_inv_def in_range_def)

lemma run_eq:
  assumes "fsm_inv m"
  shows "state_machine_run (Some m) arg =
     (if actual_state m = target_state m
      then (case run (private_data (states m ! unat (actual_state m))) of
              Indeterminate \<Rightarrow> Inl UninitRead
            | Val cb \<Rightarrow> Inr (actual_state m, Some m, map_option (\<lambda>f. Run_call f arg) cb))
      else (case enter (private_data (states m ! unat (target_state m))) of
              Indeterminate \<Rightarrow> Inl UninitRead
            | Val cb \<Rightarrow> Inr (target_state m, Some (m\<lparr>actual_state := target_state m\<rparr>),
                             map_option (\<lambda>g. Enter_call g (actual_state m) arg) cb)))"
proof -
  have ok: "states_ok m" and a: "actual_state m < state_nr m" and t: "target_state m < state_nr m"
    using assms by (simp_all add: fsm_inv_def in_range_def)
  have cur: "actual m = Inr (states m ! unat (actual_state m))"
    using assms by (rule actual_ok)
  have cur_id: "st_id (states m ! unat (actual_state m)) = actual_state m"
    using ok a by (rule st_id_ok)
  have new: "actual (m\<lparr>actual_state := target_state m\<rparr>) = Inr (states m ! unat (target_state m))"
    using actual_ok [OF fsm_inv_actual_update [OF assms]] by simp
  have new_id: "st_id (states m ! unat (target_state m)) = target_state m"
    using ok t by (rule st_id_ok)
  show ?thesis
    by (simp add: state_machine_run_def cur cur_id new new_id get_state_ok [OF assms]
        split: slot.splits)
qed

text \<open>The example machine is well-formed, and it is the machine the setup calls build.\<close>

lemma fsm_inv_scenario: "fsm_inv scenario"
  by (simp add: fsm_inv_def states_ok_def in_range_def scenario_def upt_rec)

lemma scenario_built:
  "(case state_machine_add_state (Some (state_machine_init 3 0)) 0 (Some ''stay0'') (Some ''enter0'') of
      Inr (True, m1) \<Rightarrow>
        (case state_machine_add_state m1 1 (Some ''stay1'') (Some ''enter1'') of
           Inr (True, m2) \<Rightarrow>
             (case state_machine_add_state m2 2 (Some ''stay2'') None of
                Inr (True, m3) \<Rightarrow>
                  (case state_machine_add_transition m3 0 1 of
                     Inr (True, m4) \<Rightarrow> state_machine_add_transition m4 1 2
                   | _ \<Rightarrow> Inl NullDeref)
              | _ \<Rightarrow> Inl NullDeref)
         | _ \<Rightarrow> Inl NullDeref)
    | _ \<Rightarrow> Inl NullDeref) = Inr (True, Some scenario)"
  by code_simp

lemma scenario_loop_built:
  "state_machine_add_transition (Some scenario) 0 0
       = Inr (True, Some (scenario\<lparr>states := (states scenario)[0 :=
                            (states scenario ! 0)\<lparr>valid_target := 3\<rparr>]\<rparr>))
   \<and> state_machine_add_transition
         (Some (scenario\<lparr>states := (states scenario)[0 :=
                            (states scenario ! 0)\<lparr>valid_target := 3\<rparr>]\<rparr>)) 0 2
       = Inr (True, Some scenario_loop)"
  by code_simp

lemma fsm_inv_scenario_loop: "fsm_inv scenario_loop"
  unfolding scenario_loop_def using fsm_inv_scenario
  by (rule fsm_inv_states_update) (simp add: scenario_def)

text \<open>A request that succeeded: what it says about the target and the machine.\<close>

lemma go_to_state_True:
  assumes "fsm_inv m" and "state_machine_go_to_state (Some m) t = Inr (True, fsm')"
  shows "t < state_nr m \<and> fsm' = Some (m\<lparr>target_state := t\<rparr>)"
  using assms by (auto simp: go_to_state_eq split: if_splits)

lemma wide_machine_built:
  "state_machine_add_transition (Some (state_machine_init 33 0)) 0 0 = Inr (True, Some wide_machine)"
  by code_simp

lemma fsm_inv_wide_machine: "fsm_inv wide_machine"
  unfolding wide_machine_def
  by (rule fsm_inv_states_update) (simp_all add: fsm_inv_init states_init fresh_state_def upt_rec)

lemma bare_loop_built:
  "state_machine_add_transition (Some (state_machine_init 1 0)) 0 0 = Inr (True, Some bare_loop)"
  by (simp add: add_transition_eq [OF states_ok_init] bare_loop_def states_init shl_one_def
      fresh_state_def)
     (simp add: state_machine_init_def)

lemma fsm_inv_bare_loop: "fsm_inv bare_loop"
proof -
  have "fsm_inv ((state_machine_init 1 0 :: ('r, 'e) fsm_t)\<lparr>states :=
          (states (state_machine_init 1 0))[0 := (fresh_state 0)\<lparr>valid_target := 1\<rparr>]\<rparr>)"
    by (rule fsm_inv_states_update) (simp_all add: fsm_inv_init states_init fresh_state_def)
  then show ?thesis
    by (simp add: bare_loop_def states_init)
qed

text \<open>The scenario of the specification, tick by tick.\<close>

lemma scenario_trace:
  "state_machine_run (Some scenario) ''tick''
       = Inr (0, Some scenario, Some (Run_call ''stay0'' ''tick''))
   \<and> state_machine_go_to_state (Some scenario) 1
       = Inr (True, Some (scenario\<lparr>target_state := 1\<rparr>))
   \<and> state_machine_run (Some (scenario\<lparr>target_state := 1\<rparr>)) ''tick''
       = Inr (1, Some (scenario\<lparr>target_state := 1, actual_state := 1\<rparr>),
              Some (Enter_call ''enter1'' 0 ''tick''))
   \<and> state_machine_go_to_state (Some (scenario\<lparr>target_state := 1, actual_state := 1\<rparr>)) 0
       = Inr (False, Some (scenario\<lparr>target_state := 1, actual_state := 1\<rparr>))
   \<and> state_machine_run (Some (scenario\<lparr>target_state := 1, actual_state := 1\<rparr>)) ''tick''
       = Inr (1, Some (scenario\<lparr>target_state := 1, actual_state := 1\<rparr>),
              Some (Run_call ''stay1'' ''tick''))"
  by code_simp

text \<open>
  A call that returns leaves a well-formed machine with the same number of states, and
  a state that is registered stays registered.
\<close>

lemma perform_inv:
  assumes "fsm_inv m" and "perform m q = Inr fsm'"
  shows "\<exists>m'. fsm' = Some m' \<and> fsm_inv m' \<and> state_nr m' = state_nr m"
proof (cases q)
  case (Add_state i r e)
  have "fsm_inv (m\<lparr>states := (states m)[unat i := (states m ! unat i)\<lparr>private_data :=
          \<lparr>enabled = True, run = Val r, enter = Val e\<rparr>\<rparr>]\<rparr>)"
    using assms(1) by (rule fsm_inv_states_update) simp
  then show ?thesis
    using assms Add_state by (auto simp: add_state_eq fsm_inv_def split: if_splits)
next
  case (Add_transition s t)
  have upd: "fsm_inv (m\<lparr>states := (states m)[unat s := (states m ! unat s)\<lparr>valid_target :=
          valid_target (states m ! unat s) OR shl_one t\<rparr>]\<rparr>)"
    using assms(1) by (rule fsm_inv_states_update) simp
  have ok: "states_ok m"
    using assms(1) by (simp add: fsm_inv_def)
  show ?thesis
    using assms Add_transition upd by (auto simp: add_transition_eq [OF ok] split: if_splits)
next
  case (Go_to_state t)
  then show ?thesis
    using assms by (auto simp: go_to_state_eq fsm_inv_target_update split: if_splits)
next
  case (Run arg)
  then show ?thesis
    using assms fsm_inv_actual_update [OF assms(1)]
    by (auto simp: run_eq split: if_splits slot.splits)
qed

lemma perform_all_inv:
  "fsm_inv m \<Longrightarrow> perform_all m qs = Inr fsm' \<Longrightarrow>
     \<exists>m'. fsm' = Some m' \<and> fsm_inv m' \<and> state_nr m' = state_nr m"
proof (induction qs arbitrary: m)
  case Nil
  then show ?case by auto
next
  case (Cons q qs)
  from Cons.prems(2) obtain mid where mid: "perform m q = Inr mid"
    by (cases "perform m q") simp_all
  with Cons.prems(1) obtain m1 where m1: "mid = Some m1" "fsm_inv m1" "state_nr m1 = state_nr m"
    using perform_inv by blast
  with Cons.prems(2) mid have "perform_all m1 qs = Inr fsm'"
    by simp
  with Cons.IH [OF m1(2)] m1(3) show ?case
    by simp
qed

lemma perform_enabled:
  assumes "fsm_inv m" and "perform m q = Inr (Some m')"
    and "enabled (private_data (states m ! k))" and "k < length (states m)"
  shows "enabled (private_data (states m' ! k))"
proof (cases q)
  case (Add_state i r e)
  then show ?thesis
    using assms by (auto simp: add_state_eq fsm_inv_def nth_list_update index_in_array split: if_splits)
next
  case (Add_transition s t)
  have ok: "states_ok m"
    using assms(1) by (simp add: fsm_inv_def)
  show ?thesis
    using assms Add_transition ok
    by (auto simp: add_transition_eq [OF ok] nth_list_update index_in_array split: if_splits)
next
  case (Go_to_state t)
  then show ?thesis
    using assms by (auto simp: go_to_state_eq split: if_splits)
next
  case (Run arg)
  then show ?thesis
    using assms by (auto simp: run_eq split: if_splits slot.splits)
qed

lemma perform_length:
  assumes "fsm_inv m" and "perform m q = Inr (Some m')"
  shows "length (states m') = length (states m)"
  using perform_inv [OF assms(1), of q "Some m'"] assms
  by (simp add: fsm_inv_def states_ok_def)

lemma perform_all_enabled:
  "fsm_inv m \<Longrightarrow> perform_all m qs = Inr (Some m') \<Longrightarrow>
     enabled (private_data (states m ! k)) \<Longrightarrow> k < length (states m) \<Longrightarrow>
     enabled (private_data (states m' ! k))"
proof (induction qs arbitrary: m)
  case Nil
  then show ?case by simp
next
  case (Cons q qs)
  from Cons.prems(2) obtain mid where mid: "perform m q = Inr mid"
    by (cases "perform m q") simp_all
  with Cons.prems(1) obtain m1 where m1: "mid = Some m1" "fsm_inv m1"
    using perform_inv by blast
  have step: "perform m q = Inr (Some m1)"
    using mid m1(1) by simp
  have rest: "perform_all m1 qs = Inr (Some m')"
    using Cons.prems(2) step by simp
  have "enabled (private_data (states m1 ! k))"
    using Cons.prems(1) step Cons.prems(3,4) by (rule perform_enabled)
  moreover have "k < length (states m1)"
    using perform_length [OF Cons.prems(1) step] Cons.prems(4) by simp
  ultimately show ?case
    using Cons.IH [OF m1(2) rest] by simp
qed

lemma registered_for_good:
  assumes "fsm_inv m" and "i < state_nr m" and "enabled (private_data (states m ! unat i))"
    and "perform_all m qs = Inr (Some m')"
  shows "state_machine_add_state (Some m') i r e = Inr (False, Some m')"
proof -
  have len: "unat i < length (states m)"
    using assms(1,2) by (simp add: fsm_inv_def index_in_array)
  have en: "enabled (private_data (states m' ! unat i))"
    using assms(1,4,3) len by (rule perform_all_enabled)
  obtain m1 where "Some m' = Some m1" "fsm_inv m1" "state_nr m1 = state_nr m"
    using perform_all_inv [OF assms(1,4)] by blast
  then have "states_ok m'"
    by (simp add: fsm_inv_def)
  then show ?thesis
    using en by (simp add: add_state_eq)
qed

section \<open>Run and dispatch\<close>

text \<open>
  C1. Dispatch of \<open>state_machine_run\<close>. On a well-formed machine the function does what
  lemma \<open>run_eq\<close> says: with no transition pending it reads the \<^verbatim>\<open>run\<close> pointer of the
  current state, calls it when it is not \<^verbatim>\<open>NULL\<close> and returns the current identity with
  the machine unchanged; with a transition pending it moves \<^verbatim>\<open>actual_state\<close> to the target,
  reads the \<^verbatim>\<open>enter\<close> pointer of the new state and calls it with the identity left and
  \<^verbatim>\<open>arg\<close>. Both pointers are written by \<open>state_machine_add_state\<close> only:
  \<open>state_machine_init\<close> allocates the private block and sets \<^verbatim>\<open>enabled\<close> alone. On a
  state that was never registered the comparison with \<^verbatim>\<open>NULL\<close> reads an indeterminate
  pointer, here on the machine \<^verbatim>\<open>state_machine_init(1, 0, NULL)\<close> at its first tick.
\<close>

theorem run_unregistered_state:
  "state_machine_run (Some (state_machine_init 1 0)) arg = Inl UninitRead"
proof -
  have inv: "fsm_inv (state_machine_init 1 0 :: ('a, 'b) fsm_t)"
    by (simp add: fsm_inv_init)
  have "states (state_machine_init 1 0 :: ('a, 'b) fsm_t) = [fresh_state 0]"
    by (simp add: states_init)
  then show ?thesis
    by (simp add: run_eq [OF inv] fresh_state_def) (simp add: state_machine_init_def)
qed

section \<open>Requesting a transition\<close>

text \<open>
  For a target below 32, or not below \<^verbatim>\<open>state_nr\<close>, the request does what the interface
  promises. It succeeds exactly when the target is below \<^verbatim>\<open>state_nr\<close> and in the set of
  allowed targets of the current state; on success the machine differs from the one
  before in the field \<^verbatim>\<open>target_state\<close> alone, which holds the target; on failure the
  machine is the one before; in both cases the current state is the one before.
\<close>

lemma go_to_state_spec:
  assumes "fsm_inv m" and "t < 32 \<or> state_nr m \<le> t"
  shows "state_machine_go_to_state (Some m) t =
       (if t < state_nr m \<and> is_allowed_target (states m ! unat (actual_state m)) t
        then Inr (True, Some (m\<lparr>target_state := t\<rparr>))
        else Inr (False, Some m))
     \<and> actual_state (m\<lparr>target_state := t\<rparr>) = actual_state m
     \<and> state_machine_get_state (Some (m\<lparr>target_state := t\<rparr>)) = state_machine_get_state (Some m)"
  using assms by (simp add: go_to_state_below_32 state_machine_get_state_def actual_def)

text \<open>
  C2. The only bound \<open>state_machine_go_to_state\<close> puts on the target is \<^verbatim>\<open>state_nr\<close>, and
  \<open>state_machine_init\<close> puts none on \<^verbatim>\<open>state_nr\<close>; the test of the mask is a shift by the
  target. On the machine of 33 states, where the one edge ever registered is \<open>0 \<rightarrow> 0\<close>,
  the identity 32 is below \<^verbatim>\<open>state_nr\<close> and is not an allowed target of the current state,
  and the request for it succeeds and sets the target to 32: the shift by 32 finds
  bit 0.
\<close>

theorem go_to_state_accepts_unregistered:
  "state_nr wide_machine = 33
   \<and> actual_state wide_machine = 0
   \<and> is_allowed_target (states wide_machine ! unat (actual_state wide_machine)) 32 = False
   \<and> state_machine_go_to_state (Some wide_machine) 32
       = Inr (True, Some (wide_machine\<lparr>target_state := 32\<rparr>))"
proof -
  have f: "state_nr wide_machine = 33" "actual_state wide_machine = 0"
    "valid_target (states wide_machine ! 0) = 1"
    by (simp_all add: wide_machine_def states_init upt_rec) (simp_all add: state_machine_init_def)
  have s: "shl_one 32 = 1"
    by (simp add: shl_one_def)
  show ?thesis
    using f s by (simp add: go_to_state_eq [OF fsm_inv_wide_machine] not_allowed_wide)
qed

text \<open>
  When the current state \<open>a\<close> has the edge \<open>a \<rightarrow> a\<close>, the request for \<open>a\<close> succeeds and
  leaves a machine whose target is its current state. The next tick is then a tick with
  no transition pending: it never calls an \<^verbatim>\<open>enter\<close> callback, and on a state registered
  with the \<^verbatim>\<open>run\<close> callback \<open>cb\<close> it calls \<open>cb\<close> (if not \<^verbatim>\<open>NULL\<close>) with \<^verbatim>\<open>arg\<close>, returns \<open>a\<close>
  and leaves the machine as it is.
\<close>

lemma self_transition_stays:
  assumes "fsm_inv m" and "is_allowed_target (states m ! unat (actual_state m)) (actual_state m)"
  shows "state_machine_go_to_state (Some m) (actual_state m)
       = Inr (True, Some (m\<lparr>target_state := actual_state m\<rparr>))
     \<and> state_machine_get_state (Some (m\<lparr>target_state := actual_state m\<rparr>))
       = Inr (target_state (m\<lparr>target_state := actual_state m\<rparr>))
     \<and> (\<forall>cb. run (private_data (states m ! unat (actual_state m))) = Val cb \<longrightarrow>
           state_machine_run (Some (m\<lparr>target_state := actual_state m\<rparr>)) arg
             = Inr (actual_state m, Some (m\<lparr>target_state := actual_state m\<rparr>),
                    map_option (\<lambda>f. Run_call f arg) cb))
     \<and> (\<forall>v m' g p x. state_machine_run (Some (m\<lparr>target_state := actual_state m\<rparr>)) arg
           \<noteq> Inr (v, m', Some (Enter_call g p x)))"
proof -
  let ?a = "actual_state m"
  let ?m = "m\<lparr>target_state := ?a\<rparr>"
  have a: "?a < state_nr m"
    using assms(1) by (simp add: fsm_inv_def in_range_def)
  have lt: "?a < 32"
    using assms(2) by (rule allowed_lt_32)
  have inv: "fsm_inv ?m"
    using assms(1) a by (rule fsm_inv_target_update)
  have go: "state_machine_go_to_state (Some m) ?a = Inr (True, Some ?m)"
    using assms a lt by (simp add: go_to_state_below_32)
  have get: "state_machine_get_state (Some ?m) = Inr (target_state ?m)"
    using get_state_ok [OF inv] by simp
  have tick: "state_machine_run (Some ?m) arg =
      (case run (private_data (states m ! unat ?a)) of
         Indeterminate \<Rightarrow> Inl UninitRead
       | Val cb \<Rightarrow> Inr (?a, Some ?m, map_option (\<lambda>f. Run_call f arg) cb))"
    by (cases "run (private_data (states m ! unat ?a))") (simp_all add: run_eq [OF inv])
  have no_enter: "state_machine_run (Some ?m) arg \<noteq> Inr (v, m', Some (Enter_call g p x))"
    for v m' g p x
    by (cases "run (private_data (states m ! unat ?a))") (auto simp: tick)
  have stay: "state_machine_run (Some ?m) arg
      = Inr (?a, Some ?m, map_option (\<lambda>f. Run_call f arg) cb)"
    if "run (private_data (states m ! unat ?a)) = Val cb" for cb
    using that by (simp add: tick)
  show ?thesis
    using go get no_enter stay by blast
qed

lemma self_transition_stays_example:
  "state_machine_go_to_state (Some scenario_loop) 0 = Inr (True, Some scenario_loop)
   \<and> state_machine_run (Some scenario_loop) ''tick''
       = Inr (0, Some scenario_loop, Some (Run_call ''stay0'' ''tick''))"
proof -
  have a: "actual_state scenario_loop = 0" "target_state scenario_loop = 0"
    and s: "run (private_data (states scenario_loop ! unat (0 :: u32))) = Val (Some ''stay0'')"
    and e: "is_allowed_target (states scenario_loop ! unat (actual_state scenario_loop))
              (actual_state scenario_loop)"
    by (simp_all add: scenario_loop_def scenario_def is_allowed_target_def)
  have same: "scenario_loop\<lparr>target_state := 0\<rparr> = scenario_loop"
    using a(2) by simp
  show ?thesis
    using self_transition_stays [OF fsm_inv_scenario_loop e, of "''tick''"] s
    by (simp add: a(1) same)
qed

text \<open>
  C9. The edge \<open>a \<rightarrow> a\<close> can be registered on a state that \<open>state_machine_add_state\<close> never
  saw. On the machine of one state, after \<^verbatim>\<open>add_transition(fsm, 0, 0)\<close>, the request for
  state 0 succeeds and leaves target and current state equal; the tick that follows
  takes the branch with no transition pending and reads the \<^verbatim>\<open>run\<close> pointer that nobody
  wrote, instead of calling the \<^verbatim>\<open>run\<close> callback of the state or nothing.
\<close>

theorem self_transition_unregistered:
  "state_machine_add_transition (Some (state_machine_init 1 0)) 0 0
       = Inr (True, Some (bare_loop :: ('r, 'e) fsm_t))
   \<and> state_machine_go_to_state (Some (bare_loop :: ('r, 'e) fsm_t)) 0
       = Inr (True, Some bare_loop)
   \<and> state_machine_run (Some (bare_loop :: ('r, 'e) fsm_t)) arg = Inl UninitRead"
proof -
  have f: "actual_state (bare_loop :: ('r, 'e) fsm_t) = 0"
    "target_state (bare_loop :: ('r, 'e) fsm_t) = 0"
    "state_nr (bare_loop :: ('r, 'e) fsm_t) = 1"
    "states (bare_loop :: ('r, 'e) fsm_t) = [(fresh_state 0)\<lparr>valid_target := 1\<rparr>]"
    by (simp_all add: bare_loop_def state_machine_init_def)
  have same: "(bare_loop :: ('r, 'e) fsm_t)\<lparr>target_state := 0\<rparr> = bare_loop"
    using f(2) by simp
  have go: "state_machine_go_to_state (Some (bare_loop :: ('r, 'e) fsm_t)) 0
      = Inr (True, Some bare_loop)"
    using f same by (simp add: go_to_state_eq [OF fsm_inv_bare_loop] shl_one_def)
  have tick: "state_machine_run (Some (bare_loop :: ('r, 'e) fsm_t)) arg = Inl UninitRead"
    using f by (simp add: run_eq [OF fsm_inv_bare_loop] fresh_state_def)
  show ?thesis
    using bare_loop_built go tick by simp
qed

text \<open>
  C10 as stated, when the second request names the current state itself. On the
  example machine with the edges \<open>0 \<rightarrow> 0\<close>, \<open>0 \<rightarrow> 1\<close> and \<open>0 \<rightarrow> 2\<close>, in state 0: the request
  for 1 succeeds, the request for 0 that follows succeeds too, and the next tick calls
  the \<^verbatim>\<open>run\<close> callback of state 0; no state is entered.
\<close>

theorem replaced_request_counterexample:
  "state_machine_go_to_state (Some scenario_loop) 1
       = Inr (True, Some (scenario_loop\<lparr>target_state := 1\<rparr>))
   \<and> state_machine_go_to_state (Some (scenario_loop\<lparr>target_state := 1\<rparr>)) 0
       = Inr (True, Some scenario_loop)
   \<and> state_machine_run (Some scenario_loop) ''tick''
       = Inr (0, Some scenario_loop, Some (Run_call ''stay0'' ''tick''))"
  by code_simp

text \<open>
  C10, on a well-formed machine, for a second target \<open>c\<close> that is below 32 or not below
  \<^verbatim>\<open>state_nr\<close>. After a successful request for \<open>b\<close> the machine is the one before with
  target \<open>b\<close>. The second request, for \<open>c\<close>, succeeds exactly when \<open>c\<close> is below \<^verbatim>\<open>state_nr\<close>
  and in the set of allowed targets of the state that is still current; on success the
  machine it leaves is the first machine with target \<open>c\<close>, with no trace of \<open>b\<close>, and
  on failure the machine with \<open>b\<close> pending is left as it is. If \<open>c\<close> is not the current
  state and was registered, the next tick after a successful second request moves to
  \<open>c\<close>, and the one callback it calls is the \<^verbatim>\<open>enter\<close> callback stored for \<open>c\<close> (if not
  \<^verbatim>\<open>NULL\<close>), with the identity of the state left and \<^verbatim>\<open>arg\<close>.
\<close>

theorem replaced_request:
  assumes "fsm_inv m" and "state_machine_go_to_state (Some m) b = Inr (True, Some m1)"
    and "c < 32 \<or> state_nr m \<le> c"
  shows "m1 = m\<lparr>target_state := b\<rparr>
     \<and> state_machine_go_to_state (Some m1) c =
         (if c < state_nr m \<and> is_allowed_target (states m ! unat (actual_state m)) c
          then Inr (True, Some (m\<lparr>target_state := c\<rparr>))
          else Inr (False, Some m1))
     \<and> (c < state_nr m \<and> is_allowed_target (states m ! unat (actual_state m)) c
          \<and> c \<noteq> actual_state m \<longrightarrow>
          (\<forall>cb. enter (private_data (states m ! unat c)) = Val cb \<longrightarrow>
             state_machine_run (Some (m\<lparr>target_state := c\<rparr>)) arg
               = Inr (c, Some (m\<lparr>target_state := c, actual_state := c\<rparr>),
                      map_option (\<lambda>g. Enter_call g (actual_state m) arg) cb)))"
proof -
  have b: "b < state_nr m" and m1: "m1 = m\<lparr>target_state := b\<rparr>"
    using go_to_state_True [OF assms(1,2)] by simp_all
  have inv1: "fsm_inv m1"
    unfolding m1 using assms(1) b by (rule fsm_inv_target_update)
  have c1: "c < 32 \<or> state_nr m1 \<le> c"
    using assms(3) by (simp add: m1)
  have second: "state_machine_go_to_state (Some m1) c =
         (if c < state_nr m \<and> is_allowed_target (states m ! unat (actual_state m)) c
          then Inr (True, Some (m\<lparr>target_state := c\<rparr>))
          else Inr (False, Some m1))"
    using go_to_state_below_32 [OF inv1 c1] by (simp add: m1)
  have tick: "state_machine_run (Some (m\<lparr>target_state := c\<rparr>)) arg
               = Inr (c, Some (m\<lparr>target_state := c, actual_state := c\<rparr>),
                      map_option (\<lambda>g. Enter_call g (actual_state m) arg) cb)"
    if "c < state_nr m" and "c \<noteq> actual_state m"
      and "enter (private_data (states m ! unat c)) = Val cb" for cb
  proof -
    have "fsm_inv (m\<lparr>target_state := c\<rparr>)"
      using assms(1) that(1) by (rule fsm_inv_target_update)
    then show ?thesis
      using that(2,3) by (simp add: run_eq)
  qed
  show ?thesis
    using m1 second tick by blast
qed

theorem replaced_request_witness:
  "state_machine_go_to_state (Some scenario_loop) 2
       = Inr (True, Some (scenario_loop\<lparr>target_state := 2\<rparr>))
   \<and> state_machine_go_to_state (Some (scenario_loop\<lparr>target_state := 2\<rparr>)) 1
       = Inr (True, Some (scenario_loop\<lparr>target_state := 1\<rparr>))
   \<and> state_machine_run (Some (scenario_loop\<lparr>target_state := 1\<rparr>)) ''tick''
       = Inr (1, Some (scenario_loop\<lparr>target_state := 1, actual_state := 1\<rparr>),
              Some (Enter_call ''enter1'' 0 ''tick''))"
proof -
  have first: "state_machine_go_to_state (Some scenario_loop) 2
      = Inr (True, Some (scenario_loop\<lparr>target_state := 2\<rparr>))"
    by code_simp
  have bound: "(1 :: u32) < 32 \<or> state_nr scenario_loop \<le> 1"
    by simp
  have f: "actual_state scenario_loop = 0" "state_nr scenario_loop = 3"
    "is_allowed_target (states scenario_loop ! unat (0 :: u32)) 1"
    "enter (private_data (states scenario_loop ! unat (1 :: u32))) = Val (Some ''enter1'')"
    by (simp_all add: scenario_loop_def scenario_def is_allowed_target_def)
  show ?thesis
    using replaced_request [OF fsm_inv_scenario_loop first bound, of "''tick''"] first f
    by simp
qed

section \<open>Registering a state\<close>

text \<open>
  C3. \<open>state_machine_add_state\<close> fails for an identity not below \<^verbatim>\<open>state_nr\<close>; it fails
  and leaves the machine as it is, stored callbacks included, for a state whose \<^verbatim>\<open>enabled\<close>
  flag is set; otherwise it succeeds, sets the flag and stores both callbacks in the
  private block of that state, after which every further registration of the same
  identity fails and leaves the machine as it is, at once and after any sequence \<open>qs\<close>
  of calls on the machine.
\<close>

theorem add_state_spec:
  fixes m :: "('r, 'e) fsm_t" and qs :: "('r, 'e, 'a) request list"
  assumes "states_ok m"
  shows "(state_nr m \<le> i \<longrightarrow> state_machine_add_state (Some m) i r e = Inr (False, Some m))
     \<and> (i < state_nr m \<and> enabled (private_data (states m ! unat i)) \<longrightarrow>
          state_machine_add_state (Some m) i r e = Inr (False, Some m))
     \<and> (i < state_nr m \<and> \<not> enabled (private_data (states m ! unat i)) \<longrightarrow>
          (\<exists>m'. state_machine_add_state (Some m) i r e = Inr (True, Some m')
             \<and> m' = m\<lparr>states := (states m)[unat i := (states m ! unat i)\<lparr>private_data :=
                        \<lparr>enabled = True, run = Val r, enter = Val e\<rparr>\<rparr>]\<rparr>
             \<and> private_data (states m' ! unat i) = \<lparr>enabled = True, run = Val r, enter = Val e\<rparr>
             \<and> states_ok m'
             \<and> (\<forall>r' e'. state_machine_add_state (Some m') i r' e' = Inr (False, Some m'))
             \<and> (in_range m \<longrightarrow>
                  (\<forall>m'' r' e'. perform_all m' qs = Inr (Some m'') \<longrightarrow>
                     state_machine_add_state (Some m'') i r' e' = Inr (False, Some m'')))))"
proof (intro conjI impI)
  assume "state_nr m \<le> i"
  then show "state_machine_add_state (Some m) i r e = Inr (False, Some m)"
    using assms by (simp add: add_state_eq not_less)
next
  assume "i < state_nr m \<and> enabled (private_data (states m ! unat i))"
  then show "state_machine_add_state (Some m) i r e = Inr (False, Some m)"
    using assms by (simp add: add_state_eq)
next
  assume a: "i < state_nr m \<and> \<not> enabled (private_data (states m ! unat i))"
  define m' where "m' = m\<lparr>states := (states m)[unat i := (states m ! unat i)\<lparr>private_data :=
                        \<lparr>enabled = True, run = Val r, enter = Val e\<rparr>\<rparr>]\<rparr>"
  have len: "unat i < length (states m)"
    using assms a by (simp add: index_in_array)
  have first: "state_machine_add_state (Some m) i r e = Inr (True, Some m')"
    using assms a by (simp add: add_state_eq m'_def)
  have pd: "private_data (states m' ! unat i) = \<lparr>enabled = True, run = Val r, enter = Val e\<rparr>"
    using len by (simp add: m'_def)
  have ok: "states_ok m'"
    unfolding m'_def using assms by (rule states_ok_states_update) simp
  have nr: "state_nr m' = state_nr m"
    by (simp add: m'_def)
  have again: "state_machine_add_state (Some m') i r' e' = Inr (False, Some m')" for r' e'
    using a pd by (simp add: add_state_eq [OF ok] nr)
  have later: "state_machine_add_state (Some m'') i r' e' = Inr (False, Some m'')"
    if "in_range m" and "perform_all m' qs = Inr (Some m'')" for m'' r' e'
  proof -
    have "in_range m'"
      using that(1) by (simp add: in_range_def m'_def)
    with ok have "fsm_inv m'"
      by (simp add: fsm_inv_def)
    moreover have "i < state_nr m'"
      using a nr by simp
    moreover have "enabled (private_data (states m' ! unat i))"
      using pd by simp
    ultimately show ?thesis
      using that(2) by (rule registered_for_good)
  qed
  show "\<exists>m'. state_machine_add_state (Some m) i r e = Inr (True, Some m')
             \<and> m' = m\<lparr>states := (states m)[unat i := (states m ! unat i)\<lparr>private_data :=
                        \<lparr>enabled = True, run = Val r, enter = Val e\<rparr>\<rparr>]\<rparr>
             \<and> private_data (states m' ! unat i) = \<lparr>enabled = True, run = Val r, enter = Val e\<rparr>
             \<and> states_ok m'
             \<and> (\<forall>r' e'. state_machine_add_state (Some m') i r' e' = Inr (False, Some m'))
             \<and> (in_range m \<longrightarrow>
                  (\<forall>m'' r' e'. perform_all m' qs = Inr (Some m'') \<longrightarrow>
                     state_machine_add_state (Some m'') i r' e' = Inr (False, Some m'')))"
    using first pd ok again later unfolding m'_def by blast
qed

theorem add_state_spec_witness:
  "state_machine_add_state (Some (state_machine_init 2 0)) 5 (Some ''a'') (Some ''b'')
     = Inr (False, Some (state_machine_init 2 0))
   \<and> state_machine_add_state (Some scenario) 1 (Some ''a'') (Some ''b'') = Inr (False, Some scenario)
   \<and> (\<exists>m'. state_machine_add_state (Some (state_machine_init 2 0)) 1 (Some ''a'') (Some ''b'')
           = Inr (True, Some m')
         \<and> private_data (states m' ! 1) = \<lparr>enabled = True, run = Val (Some ''a''), enter = Val (Some ''b'')\<rparr>
         \<and> state_machine_add_state (Some m') 1 (Some ''c'') None = Inr (False, Some m'))"
proof -
  let ?m = "state_machine_init 2 0 :: (string, string) fsm_t"
  let ?qs = "[] :: (string, string, string) request list"
  have ok: "states_ok ?m" "states_ok scenario"
    using fsm_inv_scenario by (simp_all add: states_ok_init fsm_inv_def)
  have h1: "state_nr ?m \<le> 5"
    by (simp add: state_machine_init_def)
  have h2: "1 < state_nr scenario \<and> enabled (private_data (states scenario ! unat (1 :: u32)))"
    by (simp add: scenario_def)
  have h3: "1 < state_nr ?m \<and> \<not> enabled (private_data (states ?m ! unat (1 :: u32)))"
    by (simp add: states_init fresh_state_def upt_rec) (simp add: state_machine_init_def)
  show ?thesis
    using add_state_spec [OF ok(1), of 5 "Some ''a''" "Some ''b''" ?qs] h1
      add_state_spec [OF ok(2), of 1 "Some ''a''" "Some ''b''" ?qs] h2
      add_state_spec [OF ok(1), of 1 "Some ''a''" "Some ''b''" ?qs] h3
    by auto
qed

section \<open>Registering a transition\<close>

text \<open>
  For a target below 32, or an identity not below \<^verbatim>\<open>state_nr\<close>, the registration does what
  the interface promises. When either identity is not below \<^verbatim>\<open>state_nr\<close> the call fails
  and the machine is unchanged. When both are below \<^verbatim>\<open>state_nr\<close> the call succeeds, changes
  the mask of the source state alone, and the target is then in the set of allowed
  targets of the source, so that a request for it made while the source is the current
  state succeeds.
\<close>

lemma add_transition_spec:
  assumes "fsm_inv m" and "t < 32 \<or> state_nr m \<le> s \<or> state_nr m \<le> t"
  shows "(state_nr m \<le> s \<or> state_nr m \<le> t \<longrightarrow>
            state_machine_add_transition (Some m) s t = Inr (False, Some m))
     \<and> (s < state_nr m \<and> t < state_nr m \<longrightarrow>
          (\<exists>m'. state_machine_add_transition (Some m) s t = Inr (True, Some m')
             \<and> m' = m\<lparr>states := (states m)[unat s := (states m ! unat s)\<lparr>valid_target :=
                        valid_target (states m ! unat s) OR shl_one t\<rparr>]\<rparr>
             \<and> is_allowed_target (states m' ! unat s) t
             \<and> fsm_inv m'
             \<and> (actual_state m' = s \<longrightarrow>
                  state_machine_go_to_state (Some m') t = Inr (True, Some (m'\<lparr>target_state := t\<rparr>)))))"
proof (intro conjI impI)
  assume "state_nr m \<le> s \<or> state_nr m \<le> t"
  then show "state_machine_add_transition (Some m) s t = Inr (False, Some m)"
    by (auto simp: state_machine_add_transition_def)
next
  assume valid: "s < state_nr m \<and> t < state_nr m"
  with assms(2) have t32: "t < 32"
    by auto
  define m' where "m' = m\<lparr>states := (states m)[unat s := (states m ! unat s)\<lparr>valid_target :=
                        valid_target (states m ! unat s) OR shl_one t\<rparr>]\<rparr>"
  have ok: "states_ok m"
    using assms(1) by (simp add: fsm_inv_def)
  have len: "unat s < length (states m)"
    using ok valid by (simp add: index_in_array)
  have call: "state_machine_add_transition (Some m) s t = Inr (True, Some m')"
    using ok valid by (simp add: add_transition_eq m'_def)
  have mem: "is_allowed_target (states m' ! unat s) t"
    using len t32 by (simp add: m'_def allowed_after_or)
  have inv: "fsm_inv m'"
    unfolding m'_def using assms(1) by (rule fsm_inv_states_update) simp
  have nr: "state_nr m' = state_nr m"
    by (simp add: m'_def)
  have go: "state_machine_go_to_state (Some m') t = Inr (True, Some (m'\<lparr>target_state := t\<rparr>))"
    if "actual_state m' = s"
    using that mem valid t32 by (simp add: go_to_state_below_32 [OF inv] nr)
  show "\<exists>m'. state_machine_add_transition (Some m) s t = Inr (True, Some m')
             \<and> m' = m\<lparr>states := (states m)[unat s := (states m ! unat s)\<lparr>valid_target :=
                        valid_target (states m ! unat s) OR shl_one t\<rparr>]\<rparr>
             \<and> is_allowed_target (states m' ! unat s) t
             \<and> fsm_inv m'
             \<and> (actual_state m' = s \<longrightarrow>
                  state_machine_go_to_state (Some m') t = Inr (True, Some (m'\<lparr>target_state := t\<rparr>)))"
    using call mem inv go unfolding m'_def by blast
qed

lemma add_transition_spec_example:
  "state_machine_add_transition (Some scenario) 0 9 = Inr (False, Some scenario)
   \<and> (\<exists>m'. state_machine_add_transition (Some scenario) 0 2 = Inr (True, Some m')
         \<and> is_allowed_target (states m' ! 0) 2
         \<and> state_machine_go_to_state (Some m') 2 = Inr (True, Some (m'\<lparr>target_state := 2\<rparr>)))"
proof -
  have h1: "(9 :: u32) < 32 \<or> state_nr scenario \<le> 0 \<or> state_nr scenario \<le> 9"
    and h2: "(2 :: u32) < 32 \<or> state_nr scenario \<le> 0 \<or> state_nr scenario \<le> 2"
    by simp_all
  have n: "state_nr scenario \<le> 9" "0 < state_nr scenario" "2 < state_nr scenario"
    "actual_state scenario = 0"
    by (simp_all add: scenario_def)
  show ?thesis
    using add_transition_spec [OF fsm_inv_scenario h1] add_transition_spec [OF fsm_inv_scenario h2] n
    by auto
qed

text \<open>
  C4. The only bound \<open>state_machine_add_transition\<close> puts on the target is \<^verbatim>\<open>state_nr\<close>. On
  a fresh machine of 33 states the identities 0 and 32 are both below \<^verbatim>\<open>state_nr\<close>;
  registering the edge \<open>0 \<rightarrow> 32\<close> returns \<^verbatim>\<open>true\<close> and leaves the machine that registering
  \<open>0 \<rightarrow> 0\<close> leaves: 32 is not in the set of allowed targets of state 0, 0 is, and a
  request for state 0, an edge nobody registered, succeeds.
\<close>

theorem add_transition_records_other_edge:
  "state_machine_add_transition (Some (state_machine_init 33 0)) 0 32 = Inr (True, Some wide_machine)
   \<and> state_machine_add_transition (Some (state_machine_init 33 0)) 0 0 = Inr (True, Some wide_machine)
   \<and> is_allowed_target (states wide_machine ! 0) 32 = False
   \<and> is_allowed_target (states wide_machine ! 0) 0 = True
   \<and> state_machine_go_to_state (Some wide_machine) 0
       = Inr (True, Some (wide_machine\<lparr>target_state := 0\<rparr>))"
proof -
  have built: "state_machine_add_transition (Some (state_machine_init 33 0)) 0 32
      = Inr (True, Some wide_machine)"
    by code_simp
  have f: "state_nr wide_machine = 33" "actual_state wide_machine = 0"
    "valid_target (states wide_machine ! 0) = 1"
    by (simp_all add: wide_machine_def states_init upt_rec) (simp_all add: state_machine_init_def)
  have go: "state_machine_go_to_state (Some wide_machine) 0
      = Inr (True, Some (wide_machine\<lparr>target_state := 0\<rparr>))"
    using f by (simp add: go_to_state_eq [OF fsm_inv_wide_machine] shl_one_def)
  show ?thesis
    using built wide_machine_built go f(3)
    by (simp add: not_allowed_wide) (simp add: is_allowed_target_def)
qed

text \<open>
  C5. For identities below \<^verbatim>\<open>state_nr\<close>, the first registration of an edge succeeds, the
  second succeeds too and returns the machine the first one left: two calls are one
  call. Both calls combine the mask with the same value of the shift, whatever the
  target.
\<close>

theorem add_transition_idempotent:
  assumes "states_ok m" and "s < state_nr m" and "t < state_nr m"
  shows "\<exists>m1. state_machine_add_transition (Some m) s t = Inr (True, Some m1)
     \<and> state_machine_add_transition (Some m1) s t = Inr (True, Some m1)
     \<and> add_transition_twice (Some m) s t = state_machine_add_transition (Some m) s t"
proof -
  define m1 where "m1 = m\<lparr>states := (states m)[unat s := (states m ! unat s)\<lparr>valid_target :=
                        valid_target (states m ! unat s) OR shl_one t\<rparr>]\<rparr>"
  have len: "unat s < length (states m)"
    using assms by (simp add: index_in_array)
  have once: "state_machine_add_transition (Some m) s t = Inr (True, Some m1)"
    using assms by (simp add: add_transition_eq m1_def)
  have ok1: "states_ok m1"
    unfolding m1_def using assms(1) by (rule states_ok_states_update) simp
  have nr: "state_nr m1 = state_nr m"
    by (simp add: m1_def)
  have same: "m1\<lparr>states := (states m1)[unat s := (states m1 ! unat s)\<lparr>valid_target :=
                        valid_target (states m1 ! unat s) OR shl_one t\<rparr>]\<rparr> = m1"
    using len by (simp add: m1_def)
  have again: "state_machine_add_transition (Some m1) s t = Inr (True, Some m1)"
    using assms(2,3) same by (simp add: add_transition_eq [OF ok1] nr)
  show ?thesis
    using once again by (simp add: add_transition_twice_def)
qed

theorem add_transition_idempotent_witness:
  "(\<exists>m1. state_machine_add_transition (Some scenario) 1 0 = Inr (True, Some m1)
     \<and> state_machine_add_transition (Some m1) 1 0 = Inr (True, Some m1)
     \<and> add_transition_twice (Some scenario) 1 0 = state_machine_add_transition (Some scenario) 1 0)
   \<and> (\<exists>m1. state_machine_add_transition (Some wide_machine) 5 32 = Inr (True, Some m1)
     \<and> state_machine_add_transition (Some m1) 5 32 = Inr (True, Some m1)
     \<and> add_transition_twice (Some wide_machine) 5 32
         = state_machine_add_transition (Some wide_machine) 5 32)"
proof -
  have ok: "states_ok scenario" "states_ok wide_machine"
    using fsm_inv_scenario fsm_inv_wide_machine by (simp_all add: fsm_inv_def)
  have n: "1 < state_nr scenario" "0 < state_nr scenario"
    by (simp_all add: scenario_def)
  have w: "5 < state_nr wide_machine" "32 < state_nr wide_machine"
    by (simp_all add: wide_machine_def state_machine_init_def)
  show ?thesis
    using add_transition_idempotent [OF ok(1) n(1) n(2)] add_transition_idempotent [OF ok(2) w]
    by simp
qed

section \<open>Construction and the range invariant\<close>

text \<open>
  C7. For an initial state below \<^verbatim>\<open>state_nr\<close>, the machine that \<open>state_machine_init\<close>
  returns reports the initial state as its current state, has the initial state as its
  target, and holds \<^verbatim>\<open>state_nr\<close> states, the state at index \<open>k\<close> with identity \<open>k\<close>, an empty mask
  (no allowed target) and the \<^verbatim>\<open>enabled\<close> flag cleared.
\<close>

theorem init_postcondition:
  fixes n i :: u32
  defines "m \<equiv> state_machine_init n i :: ('r, 'e) fsm_t"
  assumes "i < n"
  shows "state_machine_get_state (Some m) = Inr i
     \<and> actual_state m = i
     \<and> target_state m = i
     \<and> state_nr m = n
     \<and> length (states m) = unat n
     \<and> (\<forall>k < unat n.
           st_id (states m ! k) = of_nat k
           \<and> valid_target (states m ! k) = 0
           \<and> \<not> enabled (private_data (states m ! k))
           \<and> (\<forall>t. \<not> is_allowed_target (states m ! k) t))"
proof -
  have fields: "actual_state m = i" "target_state m = i" "state_nr m = n"
    by (simp_all add: m_def state_machine_init_def)
  have "fsm_inv m"
    unfolding m_def using assms(2) by (rule fsm_inv_init)
  then have get: "state_machine_get_state (Some m) = Inr i"
    using fields(1) by (simp add: get_state_ok)
  have each: "states m ! k = fresh_state (of_nat k)" if "k < unat n" for k
    using that by (simp add: m_def states_init)
  have len: "length (states m) = unat n"
    by (simp add: m_def states_init)
  show ?thesis
    using get fields len by (simp add: each fresh_state_def is_allowed_target_def)
qed

theorem init_postcondition_witness:
  "state_machine_get_state (Some (state_machine_init 3 2 :: (string, string) fsm_t)) = Inr 2
   \<and> target_state (state_machine_init 3 2 :: (string, string) fsm_t) = 2
   \<and> length (states (state_machine_init 3 2 :: (string, string) fsm_t)) = 3
   \<and> st_id (states (state_machine_init 3 2 :: (string, string) fsm_t) ! 1) = 1
   \<and> valid_target (states (state_machine_init 3 2 :: (string, string) fsm_t) ! 1) = 0
   \<and> enabled (private_data (states (state_machine_init 3 2 :: (string, string) fsm_t) ! 1)) = False"
proof -
  have h: "(2 :: u32) < 3"
    by simp
  show ?thesis
    using init_postcondition [OF h, where ?'r = string and ?'e = string] by auto
qed

text \<open>
  Every sequence of calls on a well-formed machine that runs to its end leaves a
  well-formed machine with the same number of states; so the current state and the
  target stay below \<^verbatim>\<open>state_nr\<close> once they are below it at construction.
\<close>

lemma range_invariant_kept:
  "i < n \<Longrightarrow> perform_all (state_machine_init n i) qs = Inr fsm' \<Longrightarrow>
     \<exists>m'. fsm' = Some m' \<and> in_range m' \<and> state_machine_get_state (Some m') = Inr (actual_state m')"
  using perform_all_inv [OF fsm_inv_init, of i n qs fsm']
  by (auto simp: fsm_inv_def get_state_ok)

text \<open>
  C6. \<open>state_machine_init\<close> stores \<^verbatim>\<open>initial_state\<close> with no comparison against
  \<^verbatim>\<open>state_nr\<close>, the comparison the other operations make on every identity they
  receive. After \<^verbatim>\<open>state_machine_init(2, 5, NULL)\<close> the target is 5 on a machine of 2
  states, and \<^verbatim>\<open>actual_state\<close> points outside the array.
\<close>

theorem init_range_violated:
  fixes m :: "('r, 'e) fsm_t"
  defines "m \<equiv> state_machine_init 2 5"
  shows "target_state m = 5 \<and> state_nr m = 2 \<and> \<not> in_range m
     \<and> state_machine_get_state (Some m) = Inl OutOfBounds"
  by (simp add: m_def in_range_def state_machine_get_state_def actual_def state_at_def states_init)
     (simp add: state_machine_init_def)

section \<open>Operations on an absent machine\<close>

text \<open>
  C8. Called with \<^verbatim>\<open>NULL\<close>, \<open>state_machine_add_state\<close> and \<open>state_machine_go_to_state\<close>
  execute \<^verbatim>\<open>return(-1)\<close> in a function whose result type is \<^verbatim>\<open>bool\<close>: the caller receives
  \<^verbatim>\<open>true\<close>, the value that reports success. \<open>state_machine_run\<close> returns \<open>2 ^ 32 - 1\<close>,
  and \<open>state_machine_add_transition\<close> and \<open>state_machine_get_state\<close> have no check and
  dereference the pointer.
\<close>

theorem null_machine_results:
  "state_machine_add_state None i r e = Inr (True, None)
   \<and> state_machine_go_to_state None t = Inr (True, None)
   \<and> state_machine_run None arg = Inr (0xFFFFFFFF, None, None)
   \<and> state_machine_add_transition None a b = Inl NullDeref
   \<and> state_machine_get_state None = Inl NullDeref"
  by (simp add: state_machine_add_state_def state_machine_go_to_state_def
      state_machine_run_def state_machine_add_transition_def state_machine_get_state_def
      c_bool_def c_u32_def)

end
